theory Spec2Isabelle
  imports Complex_Main
begin

section \<open>JavaScript numbers\<close>

text \<open>
  The export handler computes with JavaScript numbers.  Finite values are modelled as
  exact rationals (rounding of IEEE doubles is not modelled); the two infinities and
  NaN are kept, because \<open>canvas.height * imgWidth / canvas.width\<close> divides by the
  canvas width, which is zero for an empty capture surface.  Canvas dimensions are
  non-negative integers, so a zero divisor is always \<open>+0\<close>; signed zeros are not
  modelled.
\<close>

datatype number = Num rat | PosInf | NegInf | NaN

fun js_times :: "number \<Rightarrow> number \<Rightarrow> number" where
  "js_times (Num a) (Num b) = Num (a * b)"
| "js_times NaN _ = NaN"
| "js_times _ NaN = NaN"
| "js_times (Num a) PosInf = (if a = 0 then NaN else if 0 < a then PosInf else NegInf)"
| "js_times (Num a) NegInf = (if a = 0 then NaN else if 0 < a then NegInf else PosInf)"
| "js_times PosInf (Num b) = (if b = 0 then NaN else if 0 < b then PosInf else NegInf)"
| "js_times NegInf (Num b) = (if b = 0 then NaN else if 0 < b then NegInf else PosInf)"
| "js_times PosInf PosInf = PosInf"
| "js_times PosInf NegInf = NegInf"
| "js_times NegInf PosInf = NegInf"
| "js_times NegInf NegInf = PosInf"

fun js_divide :: "number \<Rightarrow> number \<Rightarrow> number" where
  "js_divide (Num a) (Num b) =
     (if b = 0 then (if a = 0 then NaN else if 0 < a then PosInf else NegInf)
      else Num (a / b))"
| "js_divide NaN _ = NaN"
| "js_divide _ NaN = NaN"
| "js_divide (Num a) PosInf = Num 0"
| "js_divide (Num a) NegInf = Num 0"
| "js_divide PosInf (Num b) = (if 0 \<le> b then PosInf else NegInf)"
| "js_divide NegInf (Num b) = (if 0 \<le> b then NegInf else PosInf)"
| "js_divide PosInf PosInf = NaN"
| "js_divide PosInf NegInf = NaN"
| "js_divide NegInf PosInf = NaN"
| "js_divide NegInf NegInf = NaN"

fun js_minus :: "number \<Rightarrow> number \<Rightarrow> number" where
  "js_minus (Num a) (Num b) = Num (a - b)"
| "js_minus NaN _ = NaN"
| "js_minus _ NaN = NaN"
| "js_minus (Num a) PosInf = NegInf"
| "js_minus (Num a) NegInf = PosInf"
| "js_minus PosInf (Num b) = PosInf"
| "js_minus NegInf (Num b) = NegInf"
| "js_minus PosInf PosInf = NaN"
| "js_minus PosInf NegInf = PosInf"
| "js_minus NegInf PosInf = NegInf"
| "js_minus NegInf NegInf = NaN"

fun js_ge :: "number \<Rightarrow> number \<Rightarrow> bool" where
  "js_ge (Num a) (Num b) = (b \<le> a)"
| "js_ge NaN _ = False"
| "js_ge _ NaN = False"
| "js_ge PosInf _ = True"
| "js_ge _ NegInf = True"
| "js_ge (Num a) PosInf = False"
| "js_ge NegInf (Num b) = False"
| "js_ge NegInf PosInf = False"

section \<open>The PDF export: \<open>handleDownloadPDF\<close>\<close>

text \<open>
  The handler talks to three libraries: html2canvas (the capture), the canvas
  (\<open>toDataURL\<close>) and jsPDF.  None of them is part of the repository, so a library is a
  parameter: given the calls already performed on this export and the call attempted, it
  says whether the call throws.  A call that returns is appended to the history.
\<close>

datatype exn = Exn string

datatype call =
    ToDataURL string
  | NewJsPDF
  | AddImage number number number number
  | AddPage
  | Save string

type_synonym lib = "call list \<Rightarrow> call \<Rightarrow> exn option"

type_synonym outcome = "(call list \<times> exn) + call list"

definition perform :: "lib \<Rightarrow> call list \<Rightarrow> call \<Rightarrow> outcome" where
  "perform lib hist c =
     (case lib hist c of Some err \<Rightarrow> Inl (hist, err) | None \<Rightarrow> Inr (hist @ [c]))"

definition no_throw :: lib where
  "no_throw hist c = None"

text \<open>
  The loop of lines 91 to 96, \<open>while (heightLeft >= 0)\<close>.  \<open>AddImage x y w h\<close> stands for
  \<open>pdf.addImage(imgData, 'PNG', x, y, w, h, '', 'FAST')\<close>.  The result \<open>None\<close> is a
  loop that never exits.
\<close>

partial_function (option) addPages ::
  "lib \<Rightarrow> number \<Rightarrow> number \<Rightarrow> number \<Rightarrow> number \<Rightarrow> call list \<Rightarrow> outcome option"
where
  "addPages lib imgWidth imgHeight pageHeight heightLeft hist =
     (if js_ge heightLeft (Num 0) then
        (let position = js_minus heightLeft imgHeight in
         case perform lib hist AddPage of
           Inl thrown \<Rightarrow> Some (Inl thrown)
         | Inr hist1 \<Rightarrow>
            (case perform lib hist1 (AddImage (Num 0) position imgWidth imgHeight) of
               Inl thrown \<Rightarrow> Some (Inl thrown)
             | Inr hist2 \<Rightarrow>
                 addPages lib imgWidth imgHeight pageHeight
                   (js_minus heightLeft pageHeight) hist2))
      else Some (Inr hist))"

declare addPages.simps [code]

text \<open>
  Lines 83 to 96: the first page, then the loop.  The widths and heights are arguments
  here; the handler passes its constants \<open>imgWidth = 210\<close> and \<open>pageHeight = 297\<close> and the
  image height it computed from the canvas.
\<close>

definition paginate ::
  "lib \<Rightarrow> number \<Rightarrow> number \<Rightarrow> number \<Rightarrow> call list \<Rightarrow> outcome option"
where
  "paginate lib imgWidth imgHeight pageHeight hist =
     (let heightLeft = imgHeight; position = Num 0 in
      case perform lib hist (AddImage (Num 0) position imgWidth imgHeight) of
        Inl thrown \<Rightarrow> Some (Inl thrown)
      | Inr hist1 \<Rightarrow>
          addPages lib imgWidth imgHeight pageHeight (js_minus heightLeft pageHeight) hist1)"

record canvas =
  canvas_width :: nat
  canvas_height :: nat

text \<open>The callback given to \<open>then\<close>, lines 71 to 100.\<close>

definition then_callback :: "lib \<Rightarrow> canvas \<Rightarrow> outcome option" where
  "then_callback lib cv =
     (case perform lib [] (ToDataURL ''image/png'') of
        Inl thrown \<Rightarrow> Some (Inl thrown)
      | Inr hist1 \<Rightarrow>
         (case perform lib hist1 NewJsPDF of
            Inl thrown \<Rightarrow> Some (Inl thrown)
          | Inr hist2 \<Rightarrow>
             (let imgWidth = Num 210;
                  pageHeight = Num 297;
                  imgHeight = js_divide (js_times (Num (of_nat (canvas_height cv))) imgWidth)
                                (Num (of_nat (canvas_width cv)))
              in case paginate lib imgWidth imgHeight pageHeight hist2 of
                   None \<Rightarrow> None
                 | Some (Inl thrown) \<Rightarrow> Some (Inl thrown)
                 | Some (Inr hist3) \<Rightarrow>
                     (case perform lib hist3 (Save ''CRO_Analysis_Report.pdf'') of
                        Inl thrown \<Rightarrow> Some (Inl thrown)
                      | Inr hist4 \<Rightarrow> Some (Inr hist4)))))"




subsection \<open>Pages and bands of a document\<close>

text \<open>
  A jsPDF document starts with one page and \<open>addPage\<close> appends one.  Each page carries
  one \<open>addImage\<close> call, which draws the whole image with its top edge at the vertical
  position \<open>y\<close> of the page; the page shows what falls between \<open>0\<close> and the page
  height.  The band of a page is that visible slice, in the image's own coordinates.
\<close>

definition page_count :: "call list \<Rightarrow> nat" where
  "page_count hist = Suc (length (filter (\<lambda>c. c = AddPage) hist))"

fun draw_position :: "call \<Rightarrow> number option" where
  "draw_position (AddImage x y w h) = Some y"
| "draw_position _ = None"

definition draw_positions :: "call list \<Rightarrow> number list" where
  "draw_positions hist = List.map_filter draw_position hist"

fun finite_value :: "number \<Rightarrow> rat option" where
  "finite_value (Num a) = Some a"
| "finite_value _ = None"

record band =
  band_offset :: rat
  band_height :: rat

definition band_of :: "rat \<Rightarrow> rat \<Rightarrow> rat \<Rightarrow> band" where
  "band_of h p pos =
     \<lparr>band_offset = max 0 pos - pos,
      band_height = max 0 (min p (pos + h) - max 0 pos)\<rparr>"

definition bands :: "rat \<Rightarrow> rat \<Rightarrow> call list \<Rightarrow> band list option" where
  "bands h p hist =
     map_option (map (band_of h p)) (those (map finite_value (draw_positions hist)))"


text \<open>The pages and the bands of a run that returned a document.\<close>

definition emitted_pages :: "outcome option \<Rightarrow> nat option" where
  "emitted_pages r = (case r of Some (Inr doc) \<Rightarrow> Some (page_count doc) | _ \<Rightarrow> None)"

definition emitted_bands :: "rat \<Rightarrow> rat \<Rightarrow> outcome option \<Rightarrow> band list option" where
  "emitted_bands h p r = (case r of Some (Inr doc) \<Rightarrow> bands h p doc | _ \<Rightarrow> None)"

section \<open>The analysis request: \<open>handleAnalyze\<close> and the view\<close>

text \<open>
  The component state of lines 10 to 13.  The type \<open>'r\<close> is the report object the
  backend answers with; \<open>results = None\<close> is the initial \<open>null\<close>.
\<close>

record 'r app_state =
  url :: string
  loading :: bool
  results :: "'r option"
  error :: "string option"

definition initial_state :: "'r app_state" where
  "initial_state = \<lparr>url = [], loading = False, results = None, error = None\<rparr>"

text \<open>
  \<open>handleAnalyze\<close> runs up to its \<open>await\<close> (lines 107 to 116) and is resumed when the
  request settles (lines 117 to 123).  The first part returns the request it posts, if
  any; the second takes the settled request: \<open>Inr data\<close> for a response, \<open>Inl err\<close> for
  a rejection.  \<open>console.error\<close> of line 120 writes to the developer console only and
  is not part of the component state.
\<close>

definition handleAnalyze_begin :: "'r app_state \<Rightarrow> 'r app_state \<times> string option" where
  "handleAnalyze_begin s =
     (if url s = [] then (s\<lparr>error := Some ''Please enter a website URL''\<rparr>, None)
      else
        (let s1 = s\<lparr>loading := True\<rparr>;
             s2 = s1\<lparr>error := None\<rparr>
         in (s2, Some (url s))))"

definition handleAnalyze_settle :: "'r app_state \<Rightarrow> exn + 'r \<Rightarrow> 'r app_state" where
  "handleAnalyze_settle s response =
     (let s1 = (case response of
                  Inr data \<Rightarrow> s\<lparr>results := Some data\<rparr>
                | Inl err \<Rightarrow> s\<lparr>error := Some ''Failed to analyze website. Please try another URL.''\<rparr>)
      in s1\<lparr>loading := False\<rparr>)"

definition handleAnalyze :: "'r app_state \<Rightarrow> exn + 'r \<Rightarrow> 'r app_state" where
  "handleAnalyze s response =
     (case handleAnalyze_begin s of
        (s1, None) \<Rightarrow> s1
      | (s1, Some request) \<Rightarrow> handleAnalyze_settle s1 response)"

text \<open>
  The two buttons of the rendered view: line 139, \<open>disabled={loading}\<close>, and lines 153
  and 290, a download button that is rendered when \<open>results\<close> is set and carries no
  \<open>disabled\<close> attribute.
\<close>

definition analyze_button_disabled :: "'r app_state \<Rightarrow> bool" where
  "analyze_button_disabled s = loading s"

definition download_button_rendered :: "'r app_state \<Rightarrow> bool" where
  "download_button_rendered s = (results s \<noteq> None)"

definition download_button_disabled :: "'r app_state \<Rightarrow> bool" where
  "download_button_disabled s = False"

text \<open>
  The view as a transition system.  Besides the component state it counts the analysis
  requests and the exports that have started and not yet settled.  An event that cannot
  happen in a state (a click on a disabled or absent button, a settlement with nothing
  outstanding) has no successor.
\<close>

record 'r view =
  state :: "'r app_state"
  analyses_pending :: nat
  exports_pending :: nat

definition initial_view :: "'r view" where
  "initial_view = \<lparr>state = initial_state, analyses_pending = 0, exports_pending = 0\<rparr>"

datatype 'r event =
    Change string
  | ClickAnalyze
  | AnalyzeSettled "exn + 'r"
  | ClickDownload
  | ExportSettled

fun step :: "'r view \<Rightarrow> 'r event \<Rightarrow> 'r view option" where
  "step v (Change text) = Some (v\<lparr>state := (state v)\<lparr>url := text\<rparr>\<rparr>)"
| "step v ClickAnalyze =
     (if analyze_button_disabled (state v) then None
      else (case handleAnalyze_begin (state v) of
              (s, None) \<Rightarrow> Some (v\<lparr>state := s\<rparr>)
            | (s, Some request) \<Rightarrow>
                Some (v\<lparr>state := s, analyses_pending := Suc (analyses_pending v)\<rparr>)))"
| "step v (AnalyzeSettled response) =
     (if analyses_pending v = 0 then None
      else Some (v\<lparr>state := handleAnalyze_settle (state v) response,
                    analyses_pending := analyses_pending v - 1\<rparr>))"
| "step v ClickDownload =
     (if download_button_rendered (state v) \<and> \<not> download_button_disabled (state v)
      then Some (v\<lparr>exports_pending := Suc (exports_pending v)\<rparr>)
      else None)"
| "step v ExportSettled =
     (if exports_pending v = 0 then None
      else Some (v\<lparr>exports_pending := exports_pending v - 1\<rparr>))"

fun run :: "'r view \<Rightarrow> 'r event list \<Rightarrow> 'r view option" where
  "run v [] = Some v"
| "run v (e # es) = (case step v e of None \<Rightarrow> None | Some v' \<Rightarrow> run v' es)"

text \<open>
  The loading flag tells whether an analysis request is outstanding, and at most one
  is.
\<close>

definition single_flight :: "'r view \<Rightarrow> bool" where
  "single_flight v = (analyses_pending v = (if loading (state v) then 1 else 0))"

section \<open>Closed forms of the pagination\<close>

text \<open>
  For finite heights and a positive page height the loop runs \<open>iterations p l\<close> times
  from \<open>heightLeft = l\<close>, and the calls it makes are \<open>more_pages\<close>; \<open>page_calls\<close> are
  all the calls of \<open>paginate\<close> when no call throws.
\<close>

definition iterations :: "rat \<Rightarrow> rat \<Rightarrow> nat" where
  "iterations p l = (if l < 0 then 0 else nat \<lfloor>l / p\<rfloor> + 1)"

fun more_pages :: "rat \<Rightarrow> rat \<Rightarrow> rat \<Rightarrow> rat \<Rightarrow> nat \<Rightarrow> call list" where
  "more_pages w h p l 0 = []"
| "more_pages w h p l (Suc n) =
     AddPage # AddImage (Num 0) (Num (l - h)) (Num w) (Num h) # more_pages w h p (l - p) n"

definition page_calls :: "rat \<Rightarrow> rat \<Rightarrow> rat \<Rightarrow> call list" where
  "page_calls w h p =
     AddImage (Num 0) (Num 0) (Num w) (Num h) # more_pages w h p (h - p) (iterations p (h - p))"

text \<open>The band of page \<open>k\<close>, counted from \<open>0\<close>, when the image is at least \<open>k\<close> pages high.\<close>

definition band_row :: "rat \<Rightarrow> rat \<Rightarrow> nat \<Rightarrow> band" where
  "band_row h p k = \<lparr>band_offset = of_nat k * p, band_height = min p (h - of_nat k * p)\<rparr>"


section \<open>Failing library calls\<close>


text \<open>
  A library that refuses a fourth page: \<open>addPage\<close> throws once the document has three
  pages, and every other call returns.
\<close>

definition page_limit_lib :: lib where
  "page_limit_lib hist c =
     (if c = AddPage \<and> 3 \<le> page_count hist then Some (Exn ''page limit'') else None)"

section \<open>Properties of the pagination loop\<close>

lemma iterations_neg: "l < 0 \<Longrightarrow> iterations p l = 0"
  by (simp add: iterations_def)

lemma iterations_step:
  assumes "0 < p" "0 \<le> l"
  shows "iterations p l = Suc (iterations p (l - p))"
proof (cases "l - p < 0")
  case True
  with assms have "0 \<le> l / p" "l / p < 1" by simp_all
  then have "\<lfloor>l / p\<rfloor> = 0" by (simp add: floor_eq_iff)
  with True assms show ?thesis by (simp add: iterations_def)
next
  case False
  with assms have "(l - p) / p = l / p - 1" by (simp add: diff_divide_distrib)
  moreover from False assms have "1 \<le> l / p" by simp
  then have "1 \<le> \<lfloor>l / p\<rfloor>" by (simp add: le_floor_iff)
  ultimately show ?thesis using False assms by (simp add: iterations_def nat_diff_distrib)
qed

lemma addPages_stop:
  "l < 0 \<Longrightarrow> addPages lib (Num w) (Num h) (Num p) (Num l) hist = Some (Inr hist)"
  by (subst addPages.simps) simp

lemma addPages_no_throw_step:
  "0 \<le> l \<Longrightarrow>
   addPages no_throw (Num w) (Num h) (Num p) (Num l) hist =
   addPages no_throw (Num w) (Num h) (Num p) (Num (l - p))
     (hist @ [AddPage, AddImage (Num 0) (Num (l - h)) (Num w) (Num h)])"
  by (subst addPages.simps) (simp add: perform_def no_throw_def)

lemma addPages_no_throw:
  assumes "0 < p"
  shows "addPages no_throw (Num w) (Num h) (Num p) (Num l) hist =
         Some (Inr (hist @ more_pages w h p l (iterations p l)))"
proof (induction "iterations p l" arbitrary: l hist)
  case 0
  then have "l < 0" by (simp add: iterations_def split: if_splits)
  then show ?case by (simp add: addPages_stop iterations_neg)
next
  case (Suc n)
  then have l: "0 \<le> l" by (simp add: iterations_def split: if_splits)
  with assms Suc.hyps(2) have n: "n = iterations p (l - p)"
    by (simp add: iterations_step)
  show ?case
    using Suc.hyps(1) [OF n] l assms
    by (simp add: addPages_no_throw_step iterations_step)
qed

lemma paginate_no_throw:
  assumes "0 < p"
  shows "paginate no_throw (Num w) (Num h) (Num p) hist =
         Some (Inr (hist @ AddImage (Num 0) (Num 0) (Num w) (Num h) #
                    more_pages w h p (h - p) (iterations p (h - p))))"
  using assms by (simp add: paginate_def perform_def no_throw_def addPages_no_throw)

lemma iterations_first:
  assumes "0 < p" "0 \<le> h"
  shows "iterations p (h - p) = nat \<lfloor>h / p\<rfloor>"
proof -
  have "iterations p h = nat \<lfloor>h / p\<rfloor> + 1"
    using assms by (simp add: iterations_def)
  with iterations_step [OF assms] show ?thesis by simp
qed

lemma upt_Suc_shift: "[0..<Suc n] = 0 # map Suc [0..<n]"
  by (simp only: map_Suc_upt upt_conv_Cons [of 0 "Suc n"] zero_less_Suc if_True)

lemma count_more_pages: "length (filter (\<lambda>c. c = AddPage) (more_pages w h p l n)) = n"
  by (induction n arbitrary: l) simp_all

lemma draw_positions_append:
  "draw_positions (xs @ ys) = draw_positions xs @ draw_positions ys"
  by (simp add: draw_positions_def map_filter_def)

lemma draw_positions_more_pages:
  "draw_positions (more_pages w h p l n) =
   map (\<lambda>k. Num (l - h - of_nat k * p)) [0..<n]"
proof (induction n arbitrary: l)
  case 0
  show ?case by (simp add: draw_positions_def map_filter_simps)
next
  case (Suc n)
  have "draw_positions (more_pages w h p l (Suc n)) =
        Num (l - h) # draw_positions (more_pages w h p (l - p) n)"
    by (simp add: draw_positions_def map_filter_simps)
  also have "\<dots> = Num (l - h) # map (\<lambda>k. Num (l - p - h - of_nat k * p)) [0..<n]"
    by (simp only: Suc.IH)
  also have "\<dots> = map (\<lambda>k. Num (l - h - of_nat k * p)) [0..<Suc n]"
    by (simp only: upt_Suc_shift) (simp add: o_def algebra_simps)
  finally show ?case .
qed

lemma paginate_page_calls:
  "0 < p \<Longrightarrow> paginate no_throw (Num w) (Num h) (Num p) hist = Some (Inr (hist @ page_calls w h p))"
  by (simp add: paginate_no_throw page_calls_def)

lemma count_page_calls:
  assumes "0 < p" "0 \<le> h"
  shows "length (filter (\<lambda>c. c = AddPage) (page_calls w h p)) = nat \<lfloor>h / p\<rfloor>"
  using assms by (simp add: page_calls_def count_more_pages iterations_first)

lemma draw_positions_page_calls:
  assumes "0 < p" "0 \<le> h"
  shows "draw_positions (page_calls w h p) =
         map (\<lambda>k. Num (- (of_nat k * p))) [0..<Suc (nat \<lfloor>h / p\<rfloor>)]"
proof -
  have "draw_positions (page_calls w h p) =
        Num 0 # map (\<lambda>k. Num (h - p - h - of_nat k * p)) [0..<nat \<lfloor>h / p\<rfloor>]"
    using assms
    by (simp add: page_calls_def draw_positions_def map_filter_simps iterations_first
        draw_positions_more_pages [unfolded draw_positions_def])
  also have "\<dots> = map (\<lambda>k. Num (- (of_nat k * p))) [0..<Suc (nat \<lfloor>h / p\<rfloor>)]"
    by (simp only: upt_Suc_shift) (simp add: o_def algebra_simps)
  finally show ?thesis .
qed

lemma those_finite_Num: "those (map finite_value (map Num xs)) = Some xs"
  by (induction xs) simp_all

lemma floor_mult_le:
  assumes "0 < p" "0 \<le> h" "k \<le> nat \<lfloor>h / p\<rfloor>"
  shows "of_nat k * p \<le> (h::rat)"
proof -
  from assms have "0 \<le> \<lfloor>h / p\<rfloor>" by simp
  with assms have "int k \<le> \<lfloor>h / p\<rfloor>" by linarith
  then have "(of_int (int k) :: rat) \<le> of_int \<lfloor>h / p\<rfloor>"
    by (simp only: of_int_le_iff)
  then have "(of_nat k :: rat) \<le> of_int \<lfloor>h / p\<rfloor>" by simp
  also have "\<dots> \<le> h / p" by simp
  finally show ?thesis using assms by (simp add: pos_le_divide_eq)
qed

lemma band_of_above:
  assumes "0 \<le> a" "a \<le> h" "0 < p"
  shows "band_of h p (- a) = \<lparr>band_offset = a, band_height = min p (h - a)\<rparr>"
proof -
  have "max 0 (- a) = 0" using assms by simp
  moreover have "0 \<le> min p (h - a)" using assms by simp
  ultimately show ?thesis by (simp add: band_of_def)
qed

lemma bands_page_calls:
  assumes "0 < p" "0 \<le> h"
  shows "bands h p (page_calls w h p) =
         Some (map (band_row h p) [0..<Suc (nat \<lfloor>h / p\<rfloor>)])"
proof -
  let ?n = "nat \<lfloor>h / p\<rfloor>"
  have "bands h p (page_calls w h p) =
        Some (map (band_of h p) (map (\<lambda>k. - (of_nat k * p)) [0..<Suc ?n]))"
    unfolding bands_def draw_positions_page_calls [OF assms]
    using those_finite_Num [of "map (\<lambda>k. - (of_nat k * p)) [0..<Suc ?n]"]
    by (simp add: o_def)
  also have "map (band_of h p) (map (\<lambda>k. - (of_nat k * p)) [0..<Suc ?n]) =
             map (band_row h p) [0..<Suc ?n]"
  proof (unfold map_map, rule map_cong [OF refl])
    fix k assume "k \<in> set [0..<Suc ?n]"
    then have "k \<le> ?n" by auto
    from floor_mult_le [OF assms this] have le: "of_nat k * p \<le> h" .
    have nn: "(0::rat) \<le> of_nat k * p" using assms by simp
    show "(band_of h p \<circ> (\<lambda>k. - (of_nat k * p))) k = band_row h p k"
      using band_of_above [OF nn le assms(1)] by (simp add: band_row_def)
  qed
  finally show ?thesis .
qed

lemma page_count_append:
  "page_count (xs @ ys) = page_count xs + length (filter (\<lambda>c. c = AddPage) ys)"
  by (simp add: page_count_def)

lemma emitted_pages_paginate:
  assumes "0 < p" "0 \<le> h"
  shows "emitted_pages (paginate no_throw (Num w) (Num h) (Num p) hist) =
         Some (page_count hist + nat \<lfloor>h / p\<rfloor>)"
  using assms
  by (simp add: emitted_pages_def paginate_page_calls page_count_append count_page_calls)

lemma bands_append_fresh:
  "draw_positions hist = [] \<Longrightarrow> bands h p (hist @ calls) = bands h p calls"
  by (simp add: bands_def draw_positions_append)

lemma emitted_bands_paginate:
  assumes "0 < p" "0 \<le> h" "draw_positions hist = []"
  shows "emitted_bands h p (paginate no_throw (Num w) (Num h) (Num p) hist) =
         Some (map (band_row h p) [0..<Suc (nat \<lfloor>h / p\<rfloor>)])"
  using assms
  by (simp add: emitted_bands_def paginate_page_calls bands_append_fresh bands_page_calls)

lemma floor_mult_gt:
  assumes "0 < p" "0 \<le> h"
  shows "(h::rat) < (of_nat (nat \<lfloor>h / p\<rfloor>) + 1) * p"
proof -
  from assms have "0 \<le> \<lfloor>h / p\<rfloor>" by simp
  then have "(of_nat (nat \<lfloor>h / p\<rfloor>) :: rat) = of_int \<lfloor>h / p\<rfloor>" by simp
  moreover have "h / p < of_int \<lfloor>h / p\<rfloor> + 1" by linarith
  ultimately have "h / p < of_nat (nat \<lfloor>h / p\<rfloor>) + 1" by simp
  with assms show ?thesis by (simp add: pos_divide_less_eq)
qed


lemma last_band:
  assumes "0 < p" "0 \<le> h"
  shows "min p (h - of_nat (nat \<lfloor>h / p\<rfloor>) * p) = h - of_nat (nat \<lfloor>h / p\<rfloor>) * (p::rat)"
proof -
  from floor_mult_gt [OF assms] have "h - of_nat (nat \<lfloor>h / p\<rfloor>) * p < p"
    by (simp add: algebra_simps)
  then show ?thesis by simp
qed















lemma perform_Inr:
  "perform lib hist c = Inr hist' \<Longrightarrow> hist' = hist @ [c] \<and> perform no_throw hist c = Inr hist'"
  by (auto simp: perform_def no_throw_def split: option.splits)

lemma addPages_returned:
  assumes run: "addPages lib imgWidth imgHeight pageHeight heightLeft hist = Some r"
  shows "r = Inr doc \<Longrightarrow>
         addPages no_throw imgWidth imgHeight pageHeight heightLeft hist = Some (Inr doc)"
proof (induction lib imgWidth imgHeight pageHeight heightLeft hist r rule: addPages.raw_induct)
  case (1 loop lib imgWidth imgHeight pageHeight heightLeft hist r)
  show ?case
  proof (cases "js_ge heightLeft (Num 0)")
    case False
    with "1.hyps" "1.prems" show ?thesis
      by (subst addPages.simps) auto
  next
    case True
    let ?img = "AddImage (Num 0) (js_minus heightLeft imgHeight) imgWidth imgHeight"
    from True "1.hyps" "1.prems" obtain hist1 where
      hist1: "perform lib hist AddPage = Inr hist1"
      by (cases "perform lib hist AddPage") (auto simp: Let_def)
    with True "1.hyps" "1.prems" obtain hist2 where
      hist2: "perform lib hist1 ?img = Inr hist2"
      by (cases "perform lib hist1 ?img") (auto simp: Let_def)
    from True "1.hyps" hist1 hist2
    have "loop lib imgWidth imgHeight pageHeight (js_minus heightLeft pageHeight) hist2 = Some r"
      by (simp add: Let_def)
    from "1.IH" [OF this "1.prems"]
    have "addPages no_throw imgWidth imgHeight pageHeight (js_minus heightLeft pageHeight) hist2 =
          Some (Inr doc)" .
    with True perform_Inr [OF hist1] perform_Inr [OF hist2] show ?thesis
      by (subst addPages.simps) (simp add: Let_def)
  qed
qed (fact run)

lemma paginate_returned:
  assumes "paginate lib imgWidth imgHeight pageHeight hist = Some (Inr doc)"
  shows "paginate no_throw imgWidth imgHeight pageHeight hist = Some (Inr doc)"
proof -
  let ?img = "AddImage (Num 0) (Num 0) imgWidth imgHeight"
  from assms obtain hist1 where hist1: "perform lib hist ?img = Inr hist1"
    by (cases "perform lib hist ?img") (auto simp: paginate_def Let_def)
  with assms
  have "addPages lib imgWidth imgHeight pageHeight (js_minus imgHeight pageHeight) hist1 =
        Some (Inr doc)"
    by (simp add: paginate_def Let_def)
  from addPages_returned [OF this refl] perform_Inr [OF hist1] show ?thesis
    by (simp add: paginate_def Let_def)
qed

lemma then_callback_returned:
  assumes "then_callback lib cv = Some (Inr doc)"
  shows "then_callback no_throw cv = Some (Inr doc)"
proof -
  let ?imgHeight = "js_divide (js_times (Num (of_nat (canvas_height cv))) (Num 210))
                      (Num (of_nat (canvas_width cv)))"
  from assms obtain hist1 where hist1: "perform lib [] (ToDataURL ''image/png'') = Inr hist1"
    by (cases "perform lib [] (ToDataURL ''image/png'')") (auto simp: then_callback_def)
  with assms obtain hist2 where hist2: "perform lib hist1 NewJsPDF = Inr hist2"
    by (cases "perform lib hist1 NewJsPDF") (auto simp: then_callback_def)
  with assms hist1 obtain hist3 where
    hist3: "paginate lib (Num 210) ?imgHeight (Num 297) hist2 = Some (Inr hist3)"
    by (cases "paginate lib (Num 210) ?imgHeight (Num 297) hist2")
       (auto simp: then_callback_def Let_def split: sum.splits)
  with assms hist1 hist2
  have save: "perform lib hist3 (Save ''CRO_Analysis_Report.pdf'') = Inr doc"
    by (cases "perform lib hist3 (Save ''CRO_Analysis_Report.pdf'')")
       (auto simp: then_callback_def Let_def)
  from perform_Inr [OF hist1] perform_Inr [OF hist2] paginate_returned [OF hist3]
    perform_Inr [OF save]
  show ?thesis by (simp add: then_callback_def Let_def)
qed





lemma last_band_height:
  assumes "0 < p" "0 \<le> h" "draw_positions hist = []"
  shows "\<exists>bs. emitted_bands h p (paginate no_throw (Num w) (Num h) (Num p) hist) = Some bs
     \<and> band_height (last bs) = h - p * of_nat (length bs - 1)
     \<and> 0 \<le> band_height (last bs)"
proof -
  let ?n = "nat \<lfloor>h / p\<rfloor>"
  let ?bs = "map (band_row h p) [0..<Suc ?n]"
  have "last ?bs = band_row h p ?n" by (simp add: last_map del: upt_Suc)
  then have "band_height (last ?bs) = h - of_nat ?n * p"
    using last_band [OF assms(1,2)] by (simp add: band_row_def)
  moreover have "of_nat ?n * p \<le> h" using floor_mult_le [OF assms(1,2) order_refl] .
  moreover have "length ?bs - 1 = ?n" by (simp del: upt_Suc)
  ultimately have "band_height (last ?bs) = h - p * of_nat (length ?bs - 1)"
    "0 \<le> band_height (last ?bs)"
    by (simp_all add: mult.commute)
  with emitted_bands_paginate [OF assms, of w] show ?thesis by blast
qed

section \<open>Properties of the view\<close>

lemma step_single_flight:
  assumes "single_flight v" "step v e = Some v'"
  shows "single_flight v'"
proof (cases e)
  case (Change new_url)
  with assms show ?thesis by (auto simp: single_flight_def)
next
  case ClickAnalyze
  with assms show ?thesis
    by (auto simp: single_flight_def analyze_button_disabled_def handleAnalyze_begin_def
        Let_def split: if_splits)
next
  case (AnalyzeSettled response)
  with assms show ?thesis
    by (auto simp: single_flight_def handleAnalyze_settle_def Let_def
        split: if_splits sum.splits)
next
  case ClickDownload
  with assms show ?thesis by (auto simp: single_flight_def split: if_splits)
next
  case ExportSettled
  with assms show ?thesis by (auto simp: single_flight_def split: if_splits)
qed

lemma run_single_flight:
  "single_flight v \<Longrightarrow> run v es = Some v' \<Longrightarrow> single_flight v'"
proof (induction es arbitrary: v)
  case Nil
  then show ?case by simp
next
  case (Cons e es)
  from Cons.prems(2) obtain v1 where v1: "step v e = Some v1" "run v1 es = Some v'"
    by (auto split: option.splits)
  from step_single_flight [OF Cons.prems(1) v1(1)] have "single_flight v1" .
  from Cons.IH [OF this v1(2)] show ?case .
qed

lemma initial_single_flight: "single_flight initial_view"
  by (simp add: single_flight_def initial_view_def initial_state_def)

section \<open>The number of pages\<close>

text \<open>
  C1.  The claim: for every image height \<open>h\<close> and page height \<open>p > 0\<close> the export emits
  \<open>ceil (h / p)\<close> pages when \<open>h\<close> is not a multiple of \<open>p\<close>, and exactly \<open>h / p\<close>
  pages when it is.  The loop of lines 91 to 96 runs while \<open>heightLeft >= 0\<close>, so at an
  exact multiple it runs once more.  A canvas of 210 by 297 pixels gives an image height
  of 297 mm, one page height: the export adds a second page, on which the image is drawn
  297 mm above the top edge, and saves a document of two pages where the claim says
  one.  With an image height of 2000 and a page height of 1000 the same lines add
  three pages where the claim says two.
\<close>

theorem exact_multiple_adds_blank_page:
  "then_callback no_throw \<lparr>canvas_width = 210, canvas_height = 297\<rparr> =
     Some (Inr [ToDataURL ''image/png'', NewJsPDF,
                AddImage (Num 0) (Num 0) (Num 210) (Num 297),
                AddPage,
                AddImage (Num 0) (Num (- 297)) (Num 210) (Num 297),
                Save ''CRO_Analysis_Report.pdf''])
   \<and> emitted_pages (then_callback no_throw \<lparr>canvas_width = 210, canvas_height = 297\<rparr>) = Some 2
   \<and> emitted_pages (paginate no_throw (Num 210) (Num 2000) (Num 1000) [NewJsPDF]) = Some 3"
  by (simp add: then_callback_def paginate_def perform_def no_throw_def addPages.simps Let_def
      emitted_pages_def page_count_def)

text \<open>
  C2.  The claim: the final band has height \<open>h - p * (bandCount - 1)\<close>, and this height
  is greater than \<open>0\<close>.  At an exact multiple the page added by the extra run of the loop
  shows nothing of the image: with \<open>h = p = 297\<close> the bands are the whole image and then
  an empty band at offset 297.
\<close>

theorem exact_multiple_last_band_empty:
  "emitted_bands 297 297 (paginate no_throw (Num 210) (Num 297) (Num 297) [NewJsPDF]) =
     Some [\<lparr>band_offset = 0, band_height = 297\<rparr>, \<lparr>band_offset = 297, band_height = 0\<rparr>]"
  by (simp add: paginate_def perform_def no_throw_def addPages.simps Let_def
      emitted_bands_def bands_def draw_positions_def map_filter_def band_of_def)

section \<open>Coverage and draw positions\<close>





section \<open>Short and empty images\<close>




section \<open>Failure of an export\<close>



section \<open>Determinism of the pagination\<close>

text \<open>
  C7.  The pages of an export are a function of the canvas (for \<open>paginate\<close>: of the
  image width, the image height and the page height) alone.  Two exports of the same
  canvas that both return a document return the same calls, whatever the libraries
  answered on the way: the same number of pages, the same draw positions in the same
  order, and the same bands.  Every export starts from an empty history, and starting
  one leaves the component state as it is.
\<close>

theorem pagination_is_deterministic:
  "(then_callback lib1 cv = Some (Inr doc1) \<and> then_callback lib2 cv = Some (Inr doc2) \<longrightarrow>
      doc1 = doc2 \<and> page_count doc1 = page_count doc2 \<and>
      draw_positions doc1 = draw_positions doc2 \<and> bands h p doc1 = bands h p doc2)
   \<and> (paginate lib1 imgWidth imgHeight pageHeight hist = Some (Inr doc1) \<and>
      paginate lib2 imgWidth imgHeight pageHeight hist = Some (Inr doc2) \<longrightarrow>
      doc1 = doc2 \<and> page_count doc1 = page_count doc2 \<and>
      draw_positions doc1 = draw_positions doc2 \<and> bands h p doc1 = bands h p doc2)
   \<and> (step v ClickDownload = Some v' \<longrightarrow> state v' = state v)"
proof (intro conjI impI)
  assume "then_callback lib1 cv = Some (Inr doc1) \<and> then_callback lib2 cv = Some (Inr doc2)"
  then have "then_callback no_throw cv = Some (Inr doc1)"
    "then_callback no_throw cv = Some (Inr doc2)"
    by (auto intro: then_callback_returned)
  then have same: "doc1 = doc2" by simp
  then show "doc1 = doc2" "page_count doc1 = page_count doc2"
    "draw_positions doc1 = draw_positions doc2" "bands h p doc1 = bands h p doc2"
    by simp_all
next
  assume "paginate lib1 imgWidth imgHeight pageHeight hist = Some (Inr doc1) \<and>
      paginate lib2 imgWidth imgHeight pageHeight hist = Some (Inr doc2)"
  then have "paginate no_throw imgWidth imgHeight pageHeight hist = Some (Inr doc1)"
    "paginate no_throw imgWidth imgHeight pageHeight hist = Some (Inr doc2)"
    by (auto intro: paginate_returned)
  then have same: "doc1 = doc2" by simp
  then show "doc1 = doc2" "page_count doc1 = page_count doc2"
    "draw_positions doc1 = draw_positions doc2" "bands h p doc1 = bands h p doc2"
    by simp_all
next
  assume "step v ClickDownload = Some v'"
  then show "state v' = state v" by (auto split: if_splits)
qed

theorem pagination_is_deterministic_witness:
  "then_callback no_throw \<lparr>canvas_width = 210, canvas_height = 300\<rparr> =
     Some (Inr [ToDataURL ''image/png'', NewJsPDF,
                AddImage (Num 0) (Num 0) (Num 210) (Num 300),
                AddPage, AddImage (Num 0) (Num (- 297)) (Num 210) (Num 300),
                Save ''CRO_Analysis_Report.pdf''])
   \<and> then_callback page_limit_lib \<lparr>canvas_width = 210, canvas_height = 300\<rparr> =
     then_callback no_throw \<lparr>canvas_width = 210, canvas_height = 300\<rparr>"
proof -
  let ?cv = "\<lparr>canvas_width = 210, canvas_height = 300\<rparr>"
  let ?doc = "[ToDataURL ''image/png'', NewJsPDF,
                AddImage (Num 0) (Num 0) (Num 210) (Num 300),
                AddPage, AddImage (Num 0) (Num (- 297)) (Num 210) (Num 300),
                Save ''CRO_Analysis_Report.pdf'']"
  have first: "then_callback no_throw ?cv = Some (Inr ?doc)"
    by (simp add: then_callback_def paginate_def perform_def no_throw_def
        addPages.simps Let_def)
  obtain doc2 where second: "then_callback page_limit_lib ?cv = Some (Inr doc2)"
    by (simp add: then_callback_def paginate_def perform_def page_limit_lib_def page_count_def
        addPages.simps Let_def)
  from pagination_is_deterministic [THEN conjunct1, of no_throw ?cv ?doc page_limit_lib doc2]
    first second
  have "?doc = doc2" by simp
  with first second show ?thesis by simp
qed

section \<open>Operations in flight\<close>

text \<open>
  C8.  The claim: while an analysis request or an export is outstanding, the control
  that starts it is disabled, so that two analyses, two exports, or an analysis and an
  export never overlap.  The download button has no \<open>disabled\<close> attribute and the
  component keeps no record of a running export.  Once a report is shown, two clicks on
  the download button start two exports that are outstanding together; and a click on
  it during a second analysis starts an export while the analysis is outstanding.
\<close>

theorem exports_are_not_single_flight:
  "run (initial_view :: unit view)
     [Change ''a'', ClickAnalyze, AnalyzeSettled (Inr ()), ClickDownload, ClickDownload] =
     Some \<lparr>state = \<lparr>url = ''a'', loading = False, results = Some (), error = None\<rparr>,
           analyses_pending = 0, exports_pending = 2\<rparr>
   \<and> run (initial_view :: unit view)
     [Change ''a'', ClickAnalyze, AnalyzeSettled (Inr ()), ClickAnalyze, ClickDownload] =
     Some \<lparr>state = \<lparr>url = ''a'', loading = True, results = Some (), error = None\<rparr>,
           analyses_pending = 1, exports_pending = 1\<rparr>
   \<and> download_button_disabled
       \<lparr>url = ''a'', loading = True, results = Some (), error = None\<rparr> = False"
  by (simp add: initial_view_def initial_state_def analyze_button_disabled_def
      download_button_rendered_def download_button_disabled_def
      handleAnalyze_begin_def handleAnalyze_settle_def Let_def)

text \<open>
  C8, as the code has it.  In every state the view can reach, at most one analysis
  request is outstanding, and while one is outstanding the analyze button is disabled:
  a click on it cannot happen.  The download button is never disabled.
\<close>

theorem analysis_in_flight_disables_analyze:
  assumes "run initial_view es = Some v"
  shows "analyses_pending v \<le> 1
     \<and> (0 < analyses_pending v \<longrightarrow>
          analyze_button_disabled (state v) \<and> step v ClickAnalyze = None)
     \<and> \<not> download_button_disabled (state v)"
proof -
  from run_single_flight [OF initial_single_flight assms]
  have "analyses_pending v = (if loading (state v) then 1 else 0)"
    by (simp add: single_flight_def)
  then show ?thesis
    by (auto simp: analyze_button_disabled_def download_button_disabled_def split: if_splits)
qed

theorem analysis_in_flight_disables_analyze_witness:
  "run (initial_view :: unit view) [Change ''a'', ClickAnalyze] =
     Some \<lparr>state = \<lparr>url = ''a'', loading = True, results = None, error = None\<rparr>,
           analyses_pending = 1, exports_pending = 0\<rparr>
   \<and> step \<lparr>state = \<lparr>url = ''a'', loading = True, results = (None :: unit option), error = None\<rparr>,
           analyses_pending = 1, exports_pending = 0\<rparr> ClickAnalyze = None"
proof -
  let ?v = "\<lparr>state = \<lparr>url = ''a'', loading = True, results = (None :: unit option), error = None\<rparr>,
           analyses_pending = 1, exports_pending = 0\<rparr>"
  have reach: "run (initial_view :: unit view) [Change ''a'', ClickAnalyze] = Some ?v"
    by (simp add: initial_view_def initial_state_def analyze_button_disabled_def
        handleAnalyze_begin_def Let_def)
  from analysis_in_flight_disables_analyze [OF reach] have "step ?v ClickAnalyze = None"
    by simp
  with reach show ?thesis by simp
qed

section \<open>The analysis handler\<close>

text \<open>
  C9.  When the analysis request fails, the report shown before stays: \<open>results\<close> is
  not written before the request nor on the error path, and neither is \<open>url\<close>.  The
  error path sets the error message and resets the loading flag, and nothing else.
\<close>

theorem failed_analysis_keeps_report:
  "results (handleAnalyze s (Inl err)) = results s
   \<and> url (handleAnalyze s (Inl err)) = url s
   \<and> results (fst (handleAnalyze_begin s)) = results s
   \<and> handleAnalyze_settle s1 (Inl err) =
       s1\<lparr>error := Some ''Failed to analyze website. Please try another URL.'',
          loading := False\<rparr>
   \<and> (url s \<noteq> [] \<longrightarrow>
        handleAnalyze s (Inl err) =
          s\<lparr>loading := False,
            error := Some ''Failed to analyze website. Please try another URL.''\<rparr>)"
  by (simp add: handleAnalyze_def handleAnalyze_begin_def handleAnalyze_settle_def Let_def)

theorem failed_analysis_keeps_report_witness:
  "handleAnalyze \<lparr>url = ''http://a'', loading = False, results = Some (7::nat), error = None\<rparr>
     (Inl (Exn ''Network Error'')) =
   \<lparr>url = ''http://a'', loading = False, results = Some 7,
    error = Some ''Failed to analyze website. Please try another URL.''\<rparr>"
  using failed_analysis_keeps_report
    [of "\<lparr>url = ''http://a'', loading = False, results = Some (7::nat), error = None\<rparr>"
        "Exn ''Network Error''"
        "\<lparr>url = ''http://a'', loading = True, results = Some (7::nat), error = None\<rparr>"]
  by simp

text \<open>
  C10.  With a non-empty URL the handler clears the error message and sets the loading
  flag before it posts the request with that URL, and the flag is reset when the
  request settles, with a response or with an error.  With an empty URL it sets the
  error message, posts nothing and leaves the loading flag as it is.  In every state
  the view can reach, the loading flag is set exactly when a request is outstanding.
\<close>

theorem analyze_loading_flag:
  "(url s \<noteq> [] \<longrightarrow>
      handleAnalyze_begin s = (s\<lparr>loading := True, error := None\<rparr>, Some (url s))
      \<and> error (fst (handleAnalyze_begin s)) = None
      \<and> loading (fst (handleAnalyze_begin s)) = True
      \<and> loading (handleAnalyze_settle s1 response) = False
      \<and> loading (handleAnalyze s response) = False)
   \<and> (url s = [] \<longrightarrow>
      handleAnalyze_begin s = (s\<lparr>error := Some ''Please enter a website URL''\<rparr>, None)
      \<and> loading (fst (handleAnalyze_begin s)) = loading s
      \<and> handleAnalyze s response = s\<lparr>error := Some ''Please enter a website URL''\<rparr>)
   \<and> (run initial_view es = Some v \<longrightarrow> loading (state v) = (analyses_pending v = 1))"
proof (intro conjI impI)
  assume "run initial_view es = Some v"
  from run_single_flight [OF initial_single_flight this]
  show "loading (state v) = (analyses_pending v = 1)"
    by (simp add: single_flight_def split: if_splits)
qed (simp_all add: handleAnalyze_def handleAnalyze_begin_def handleAnalyze_settle_def Let_def
      split: sum.splits)

theorem analyze_loading_flag_witness:
  "handleAnalyze_begin \<lparr>url = ''http://a'', loading = False, results = Some (7::nat),
       error = Some ''Please enter a website URL''\<rparr> =
     (\<lparr>url = ''http://a'', loading = True, results = Some 7, error = None\<rparr>, Some ''http://a'')
   \<and> loading (handleAnalyze \<lparr>url = ''http://a'', loading = False, results = Some (7::nat),
       error = Some ''Please enter a website URL''\<rparr> (Inr 8)) = False
   \<and> handleAnalyze_begin \<lparr>url = [], loading = False, results = Some (7::nat), error = None\<rparr> =
     (\<lparr>url = [], loading = False, results = Some 7,
       error = Some ''Please enter a website URL''\<rparr>, None)"
proof -
  let ?s = "\<lparr>url = ''http://a'', loading = False, results = Some (7::nat),
       error = Some ''Please enter a website URL''\<rparr>"
  let ?e = "\<lparr>url = [], loading = False, results = Some (7::nat), error = None\<rparr>"
  have filled: "url ?s \<noteq> []" and blank: "url ?e = []" by simp_all
  from analyze_loading_flag [THEN conjunct1, rule_format, OF filled, of ?s "Inr 8"]
  have a: "handleAnalyze_begin ?s = (?s\<lparr>loading := True, error := None\<rparr>, Some (url ?s))"
    and b: "loading (handleAnalyze ?s (Inr 8)) = False"
    by blast+
  from analyze_loading_flag [THEN conjunct2, THEN conjunct1, rule_format, OF blank, of "Inr 8"]
  have c: "handleAnalyze_begin ?e = (?e\<lparr>error := Some ''Please enter a website URL''\<rparr>, None)"
    by blast
  from a b c show ?thesis by simp
qed

end
